theory Spec2Isabelle
  imports Complex_Main "HOL-Library.AList"
begin

section \<open>Pencalc: kinetic damage needed to penetrate layered armor\<close>

text \<open>
  A shallow embedding of \<^verbatim>\<open>pencalc.py\<close>: the class \<^verbatim>\<open>ArmorChunk\<close> with its methods
  \<^verbatim>\<open>add_layer\<close>, \<^verbatim>\<open>armorcalc\<close> and \<^verbatim>\<open>kdcalc\<close>.

  Number model. Python mixes \<^verbatim>\<open>int\<close> and \<^verbatim>\<open>float\<close> here (\<^verbatim>\<open>ac * 0.2\<close>, \<^verbatim>\<open>ac / shell_ap\<close>,
  \<^verbatim>\<open>math.cos\<close>); both are embedded as \<^typ>\<open>real\<close> with exact arithmetic, and the results of
  the one-argument \<^verbatim>\<open>round\<close> as \<^typ>\<open>int\<close>. The rounding error, overflow and non-finite
  values of binary64 are outside this model: every statement below is about the program
  computing with exact numbers.
\<close>

subsection \<open>Python built-ins\<close>

datatype py_error = ValueError | ZeroDivisionError | OverflowError

text \<open>\<^verbatim>\<open>round(x)\<close>: to the nearest integer, a tie going to the even neighbour.\<close>

definition py_round :: "real \<Rightarrow> int" where
  "py_round x =
     (let f = \<lfloor>x\<rfloor>; d = x - of_int f
      in if d < 1 / 2 then f
         else if 1 / 2 < d then f + 1
         else if even f then f else f + 1)"

text \<open>\<^verbatim>\<open>round(x, 1)\<close>: to one decimal place, ties to even as well.\<close>

definition py_round1 :: "real \<Rightarrow> real" where
  "py_round1 x = of_int (py_round (x * 10)) / 10"

text \<open>\<^verbatim>\<open>max(xs)\<close> of a list: \<^verbatim>\<open>ValueError\<close> on the empty list.\<close>

fun py_max :: "real list \<Rightarrow> py_error + real" where
  "py_max [] = Inl ValueError"
| "py_max (x # xs) = Inr (foldl max x xs)"

subsection \<open>The data: layers and chunks\<close>

text \<open>
  A layer is the dictionary \<^verbatim>\<open>{'hp': hp, 'ac': ac, 'is_structural': is_structural}\<close>.
  \<^verbatim>\<open>add_layer\<close> builds a fresh dictionary for each layer, so no two entries of
  \<^verbatim>\<open>self.layers\<close> are aliases and the list of dictionaries is a list of records.
  \<^verbatim>\<open>KD_required\<close> is a Python dictionary, which keeps its keys in insertion order: an
  association list, written with \<^const>\<open>AList.update\<close> (an existing key keeps its place and
  gets the new value, a new key goes to the end).
\<close>

record layer =
  hp :: real
  ac :: real
  is_structural :: bool

record armor_chunk =
  layers :: "layer list"
  KD_required :: "(real \<times> int) list"

definition ArmorChunk_init :: armor_chunk where
  "ArmorChunk_init = \<lparr>layers = [], KD_required = []\<rparr>"

definition add_layer :: "armor_chunk \<Rightarrow> real \<Rightarrow> real \<Rightarrow> bool \<Rightarrow> armor_chunk" where
  "add_layer c h a s =
     (let new_layer = \<lparr>hp = h, ac = a, is_structural = s\<rparr>
      in c\<lparr>layers := layers c @ [new_layer]\<rparr>)"

subsection \<open>armorcalc\<close>

text \<open>
  The body of the loop \<^verbatim>\<open>for L in range(0, len(self.layers) - 1)\<close>, on the list as the
  earlier iterations left it. Both indices are in range for every \<open>L\<close> of the loop.
  For an empty list Python's bound is \<open>-1\<close> and the range is empty, as \<open>[0..<0 - 1]\<close> is
  over \<^typ>\<open>nat\<close>.
\<close>

definition armorcalc_step :: "layer list \<Rightarrow> nat \<Rightarrow> layer list" where
  "armorcalc_step ls L =
     (let current_layer = ls ! L;
          next_layer = ls ! (L + 1);
          armor_boost = ac next_layer * 0.2
      in if is_structural current_layer \<and> is_structural next_layer
         then ls[L := current_layer\<lparr>ac := ac current_layer + armor_boost\<rparr>]
         else ls)"

definition armorcalc :: "armor_chunk \<Rightarrow> armor_chunk" where
  "armorcalc c = c\<lparr>layers := foldl armorcalc_step (layers c) [0..<length (layers c) - 1]\<rparr>"

subsection \<open>kdcalc\<close>

text \<open>
  The inner loop \<^verbatim>\<open>for L in range(0, len(self.layers) - 1)\<close> of \<^verbatim>\<open>kdcalc\<close>, over the
  indices still to visit, with \<^verbatim>\<open>chunk_effective_hp\<close> as accumulator. The division
  \<^verbatim>\<open>self.layers[L]['ac'] / shell_ap\<close> raises \<^verbatim>\<open>ZeroDivisionError\<close> when \<open>shell_ap\<close> is zero.
\<close>

fun hp_loop :: "layer list \<Rightarrow> real \<Rightarrow> real \<Rightarrow> nat list \<Rightarrow> int \<Rightarrow> py_error + int" where
  "hp_loop ls shell_ap shell_angle [] chunk_effective_hp = Inr chunk_effective_hp"
| "hp_loop ls shell_ap shell_angle (L # Ls) chunk_effective_hp =
     (if shell_ap = 0 then Inl ZeroDivisionError
      else
        let ac_multiplier = ac (ls ! L) / shell_ap;
            angle_multiplier = 1 - cos shell_angle;
            layer_hp = hp (ls ! L) * ac_multiplier * angle_multiplier
        in hp_loop ls shell_ap shell_angle Ls (py_round (of_int chunk_effective_hp + layer_hp)))"

lemma py_round_lower: "x - 1 / 2 \<le> of_int (py_round x)"
  unfolding py_round_def Let_def by (auto; linarith)

lemma py_round_upper: "of_int (py_round x) \<le> x + 1 / 2"
  unfolding py_round_def Let_def by (auto; linarith)

lemma py_round1_step_lower: "s + 1 / 20 \<le> py_round1 (s + 0.1)"
  using py_round_lower [of "(s + 0.1) * 10"] unfolding py_round1_def by simp

text \<open>
  The loop \<^verbatim>\<open>while shell_ap <= max_ap\<close>, with the loop variable and the dictionary as
  arguments. Each round moves \<open>shell_ap\<close> up by at least \<open>0.05\<close>, which is why it ends.
\<close>

function kd_loop ::
  "layer list \<Rightarrow> real \<Rightarrow> real \<Rightarrow> real \<Rightarrow> (real \<times> int) list \<Rightarrow> py_error + (real \<times> int) list"
where
  "kd_loop ls shell_angle max_ap shell_ap kd =
     (if shell_ap \<le> max_ap then
        (case hp_loop ls shell_ap shell_angle [0..<length ls - 1] 0 of
           Inl e \<Rightarrow> Inl e
         | Inr chunk_effective_hp \<Rightarrow>
             kd_loop ls shell_angle max_ap (py_round1 (shell_ap + 0.1))
               (AList.update shell_ap chunk_effective_hp kd))
      else Inr kd)"
  by pat_completeness auto
termination
proof (relation "measure (\<lambda>(ls, shell_angle, max_ap, shell_ap, kd).
                   nat (\<lfloor>(max_ap - shell_ap) * 20\<rfloor> + 1))")
  show "wf (measure (\<lambda>(ls, shell_angle, max_ap, shell_ap, kd).
              nat (\<lfloor>(max_ap - shell_ap) * 20\<rfloor> + 1)))"
    by simp
next
  fix ls :: "layer list" and shell_angle max_ap shell_ap :: real
    and kd :: "(real \<times> int) list" and x2 :: int
  assume le: "shell_ap \<le> max_ap"
  have "(max_ap - py_round1 (shell_ap + 0.1)) * 20 \<le> (max_ap - shell_ap) * 20 - 1"
    using py_round1_step_lower [of shell_ap] by simp
  then have "\<lfloor>(max_ap - py_round1 (shell_ap + 0.1)) * 20\<rfloor> \<le> \<lfloor>(max_ap - shell_ap) * 20 - 1\<rfloor>"
    by (rule floor_mono)
  then have "\<lfloor>(max_ap - py_round1 (shell_ap + 0.1)) * 20\<rfloor> \<le> \<lfloor>(max_ap - shell_ap) * 20\<rfloor> - 1"
    by simp
  moreover have "0 \<le> \<lfloor>(max_ap - shell_ap) * 20\<rfloor>"
    using le by simp
  ultimately show
    "((ls, shell_angle, max_ap, py_round1 (shell_ap + 0.1), AList.update shell_ap x2 kd),
      (ls, shell_angle, max_ap, shell_ap, kd))
     \<in> measure (\<lambda>(ls, shell_angle, max_ap, shell_ap, kd).
                   nat (\<lfloor>(max_ap - shell_ap) * 20\<rfloor> + 1))"
    by simp
qed

declare kd_loop.simps [simp del]

text \<open>
  \<^verbatim>\<open>kdcalc\<close>: the list \<^verbatim>\<open>layer_ac\<close> of the \<open>ac\<close> of every layer but the last, its
  maximum, and the loop from \<open>shell_ap = 0.1\<close>. The method mutates \<^verbatim>\<open>self.KD_required\<close>
  only; an exception leaves through \<open>Inl\<close>.
\<close>

definition kdcalc :: "armor_chunk \<Rightarrow> real \<Rightarrow> py_error + armor_chunk" where
  "kdcalc c shell_angle =
     (let layer_ac = map (\<lambda>L. ac (layers c ! L)) [0..<length (layers c) - 1]
      in case py_max layer_ac of
           Inl e \<Rightarrow> Inl e
         | Inr max_ap \<Rightarrow>
             (case kd_loop (layers c) shell_angle max_ap 0.1 (KD_required c) of
                Inl e \<Rightarrow> Inl e
              | Inr kd \<Rightarrow> Inr (c\<lparr>KD_required := kd\<rparr>)))"

subsection \<open>Definitions from the specification's words\<close>

text \<open>
  Not taken from the source but from the specification, for comparison with the source's
  loops. Section 9: ``an explicit fold where each step's output is
  \<open>round(previous_rounded_sum + this_layer_contribution)\<close>'', over the layers except the
  last, a layer's contribution being \<open>hp * (ac / shell_ap) * (1 - cos shell_angle)\<close>.
\<close>

definition spec_effective_hp :: "layer list \<Rightarrow> real \<Rightarrow> real \<Rightarrow> int" where
  "spec_effective_hp ls shell_ap shell_angle =
     foldl (\<lambda>previous_rounded_sum l.
              py_round (of_int previous_rounded_sum +
                        hp l * (ac l / shell_ap) * (1 - cos shell_angle)))
       0 (butlast ls)"

text \<open>
  Section 4.2: \<open>max_ap\<close> is ``the maximum effective AC among all layers except the last''.
\<close>

definition spec_max_ap :: "layer list \<Rightarrow> real" where
  "spec_max_ap ls = Max (ac ` set (butlast ls))"

text \<open>
  The writes \<^verbatim>\<open>self.KD_required[shell_ap] = chunk_effective_hp\<close> for the steps
  \<open>shell_ap = j / 10\<close>, \<open>j\<close> running through a list of step numbers. The lemma
  \<open>kd_loop_start\<close> below shows that the while loop of the source makes exactly these.
\<close>

definition kd_writes :: "layer list \<Rightarrow> real \<Rightarrow> (real \<times> int) list \<Rightarrow> nat list \<Rightarrow> (real \<times> int) list" where
  "kd_writes ls shell_angle kd js =
     foldl (\<lambda>kd j. AList.update (real j / 10) (spec_effective_hp ls (real j / 10) shell_angle) kd)
       kd js"

subsection \<open>Example chunks\<close>

text \<open>
  Chunks built as the driver builds them, with \<^verbatim>\<open>add_layer\<close> on a new \<^verbatim>\<open>ArmorChunk\<close>.
  The rows of \<^verbatim>\<open>ARMORSTATS\<close> used are METAL \<open>(1680, 40, True)\<close>,
  ALLOY \<open>(1440, 35, True)\<close>, WOOD \<open>(864, 8, True)\<close> and AIR \<open>(0, 0, False)\<close>; the last
  two chunks have layers of their own.
\<close>

definition metal_only :: armor_chunk where
  "metal_only = add_layer ArmorChunk_init 1680 40 True"

definition metal_air :: armor_chunk where
  "metal_air = add_layer (add_layer ArmorChunk_init 1680 40 True) 0 0 False"

definition air_metal :: armor_chunk where
  "air_metal = add_layer (add_layer ArmorChunk_init 0 0 False) 1680 40 True"

definition metal_alloy_wood :: armor_chunk where
  "metal_alloy_wood =
     add_layer (add_layer (add_layer ArmorChunk_init 1680 40 True) 1440 35 True) 864 8 True"

definition quarter_air :: armor_chunk where
  "quarter_air = add_layer (add_layer ArmorChunk_init 10 0.25 True) 0 0 False"

definition ones_air :: armor_chunk where
  "ones_air = add_layer (add_layer (add_layer ArmorChunk_init 1 1 True) 1 1 True) 0 0 False"

section \<open>The example chunks, evaluated\<close>

lemma layers_metal_only: "layers metal_only = [\<lparr>hp = 1680, ac = 40, is_structural = True\<rparr>]"
  by (simp add: metal_only_def add_layer_def ArmorChunk_init_def)

lemma layers_metal_air:
  "layers metal_air =
     [\<lparr>hp = 1680, ac = 40, is_structural = True\<rparr>, \<lparr>hp = 0, ac = 0, is_structural = False\<rparr>]"
  by (simp add: metal_air_def add_layer_def ArmorChunk_init_def)

lemma layers_air_metal:
  "layers air_metal =
     [\<lparr>hp = 0, ac = 0, is_structural = False\<rparr>, \<lparr>hp = 1680, ac = 40, is_structural = True\<rparr>]"
  by (simp add: air_metal_def add_layer_def ArmorChunk_init_def)

lemma KD_required_air_metal: "KD_required air_metal = []"
  by (simp add: air_metal_def add_layer_def ArmorChunk_init_def)

lemma layers_metal_alloy_wood:
  "layers metal_alloy_wood =
     [\<lparr>hp = 1680, ac = 40, is_structural = True\<rparr>,
      \<lparr>hp = 1440, ac = 35, is_structural = True\<rparr>,
      \<lparr>hp = 864, ac = 8, is_structural = True\<rparr>]"
  by (simp add: metal_alloy_wood_def add_layer_def ArmorChunk_init_def)

lemma layers_quarter_air:
  "layers quarter_air =
     [\<lparr>hp = 10, ac = 0.25, is_structural = True\<rparr>, \<lparr>hp = 0, ac = 0, is_structural = False\<rparr>]"
  by (simp add: quarter_air_def add_layer_def ArmorChunk_init_def)

lemma KD_required_quarter_air: "KD_required quarter_air = []"
  by (simp add: quarter_air_def add_layer_def ArmorChunk_init_def)

lemma layers_ones_air:
  "layers ones_air =
     [\<lparr>hp = 1, ac = 1, is_structural = True\<rparr>, \<lparr>hp = 1, ac = 1, is_structural = True\<rparr>,
      \<lparr>hp = 0, ac = 0, is_structural = False\<rparr>]"
  by (simp add: ones_air_def add_layer_def ArmorChunk_init_def)

lemma KD_required_ones_air: "KD_required ones_air = []"
  by (simp add: ones_air_def add_layer_def ArmorChunk_init_def)

section \<open>Properties of armorcalc\<close>

lemma length_armorcalc_step: "length (armorcalc_step ls L) = length ls"
  by (simp add: armorcalc_step_def Let_def)

lemma length_armorcalc_loop: "length (foldl armorcalc_step ls Ls) = length ls"
  by (induction Ls arbitrary: ls) (simp_all add: length_armorcalc_step)

lemma armorcalc_loop_nth:
  "n \<le> length ls - 1 \<Longrightarrow> i < length ls \<Longrightarrow>
   foldl armorcalc_step ls [0..<n] ! i =
     (if i < n \<and> is_structural (ls ! i) \<and> is_structural (ls ! Suc i)
      then (ls ! i)\<lparr>ac := ac (ls ! i) + ac (ls ! Suc i) * 0.2\<rparr>
      else ls ! i)"
proof (induction n arbitrary: i)
  case 0
  then show ?case by simp
next
  case (Suc n)
  define ls' where "ls' = foldl armorcalc_step ls [0..<n]"
  have len: "length ls' = length ls"
    unfolding ls'_def by (rule length_armorcalc_loop)
  have n: "n \<le> length ls - 1" "n < length ls" "Suc n < length ls"
    using Suc.prems by simp_all
  have cur: "ls' ! n = ls ! n"
    unfolding ls'_def using Suc.IH [OF n(1) n(2)] by simp
  have nxt: "ls' ! Suc n = ls ! Suc n"
    unfolding ls'_def using Suc.IH [OF n(1) n(3)] by simp
  have other: "ls' ! i =
      (if i < n \<and> is_structural (ls ! i) \<and> is_structural (ls ! Suc i)
       then (ls ! i)\<lparr>ac := ac (ls ! i) + ac (ls ! Suc i) * 0.2\<rparr>
       else ls ! i)"
    unfolding ls'_def using Suc.IH [OF n(1) Suc.prems(2)] .
  have "foldl armorcalc_step ls [0..<Suc n] = armorcalc_step ls' n"
    unfolding ls'_def by simp
  also have "\<dots> ! i =
      (if i < Suc n \<and> is_structural (ls ! i) \<and> is_structural (ls ! Suc i)
       then (ls ! i)\<lparr>ac := ac (ls ! i) + ac (ls ! Suc i) * 0.2\<rparr>
       else ls ! i)"
  proof (cases "i = n")
    case True
    then show ?thesis
      using cur nxt len n by (simp add: armorcalc_step_def Let_def)
  next
    case False
    then have "armorcalc_step ls' n ! i = ls' ! i"
      by (simp add: armorcalc_step_def Let_def)
    then show ?thesis
      using other False by (simp add: less_Suc_eq)
  qed
  finally show ?case .
qed

lemma armorcalc_layers_nth:
  assumes "i < length (layers c)"
  shows "layers (armorcalc c) ! i =
     (if Suc i < length (layers c) \<and> is_structural (layers c ! i) \<and>
         is_structural (layers c ! Suc i)
      then (layers c ! i)\<lparr>ac := ac (layers c ! i) + ac (layers c ! Suc i) * 0.2\<rparr>
      else layers c ! i)"
proof -
  have "i < length (layers c) - 1 \<longleftrightarrow> Suc i < length (layers c)"
    by arith
  then show ?thesis
    using armorcalc_loop_nth [OF le_refl assms] by (simp add: armorcalc_def)
qed

lemma length_layers_armorcalc: "length (layers (armorcalc c)) = length (layers c)"
  by (simp add: armorcalc_def length_armorcalc_loop)

lemma armorcalc_is_structural:
  "i < length (layers c) \<Longrightarrow>
   is_structural (layers (armorcalc c) ! i) = is_structural (layers c ! i)"
  by (simp add: armorcalc_layers_nth)

lemma armorcalc_hp:
  "i < length (layers c) \<Longrightarrow> hp (layers (armorcalc c) ! i) = hp (layers c ! i)"
  by (simp add: armorcalc_layers_nth)

lemma armorcalc_last:
  assumes "layers c \<noteq> []"
  shows "last (layers (armorcalc c)) = last (layers c)"
proof -
  have "last (layers (armorcalc c)) = layers (armorcalc c) ! (length (layers c) - 1)"
    using assms by (simp add: last_conv_nth length_layers_armorcalc
        flip: length_greater_0_conv)
  also have "\<dots> = layers c ! (length (layers c) - 1)"
    using assms by (simp add: armorcalc_layers_nth)
  also have "\<dots> = last (layers c)"
    using assms by (simp add: last_conv_nth)
  finally show ?thesis .
qed

lemma armorcalc_short:
  assumes "length (layers c) \<le> 1"
  shows "armorcalc c = c"
proof -
  have "length (layers c) - 1 = 0" using assms by simp
  then show ?thesis by (simp add: armorcalc_def)
qed

text \<open>
  Claim C1. One run of \<open>armorcalc\<close> sets the \<open>ac\<close> of layer \<open>i\<close> to its value before
  the run plus \<open>0.2\<close> times the value before the run of layer \<open>i + 1\<close>, when there is a
  layer \<open>i + 1\<close> and both layers are structural, and leaves it as it was otherwise (the
  last layer always). The boost is taken from the successor's value before the run, so
  boosts do not compound along the chunk.
\<close>

theorem armorcalc_ac:
  assumes "i < length (layers c)"
  shows "ac (layers (armorcalc c) ! i) =
     (if i + 1 < length (layers c) \<and> is_structural (layers c ! i) \<and>
         is_structural (layers c ! (i + 1))
      then ac (layers c ! i) + 0.2 * ac (layers c ! (i + 1))
      else ac (layers c ! i))"
  using armorcalc_layers_nth [OF assms] by simp

text \<open>
  METAL, ALLOY, WOOD: layer \<open>0\<close> gets \<open>40 + 0.2 * 35\<close>, from the \<open>ac\<close> of ALLOY before its
  own boost, and not \<open>40 + 0.2 * 36.6\<close>.
\<close>

theorem armorcalc_ac_witness:
  "ac (layers (armorcalc metal_alloy_wood) ! 0) = 47 \<and>
   ac (layers (armorcalc metal_alloy_wood) ! 1) = 36.6 \<and>
   ac (layers (armorcalc metal_alloy_wood) ! 2) = 8"
proof -
  have len: "length (layers metal_alloy_wood) = 3"
    by (simp add: layers_metal_alloy_wood)
  have "0 < length (layers metal_alloy_wood)" "1 < length (layers metal_alloy_wood)"
    "2 < length (layers metal_alloy_wood)"
    by (simp_all add: len)
  then show ?thesis
    using armorcalc_ac [of 0 metal_alloy_wood] armorcalc_ac [of 1 metal_alloy_wood]
      armorcalc_ac [of 2 metal_alloy_wood]
    by (simp add: layers_metal_alloy_wood)
qed

text \<open>The two-layer case of the specification's section 8.\<close>

corollary armorcalc_two_layers:
  assumes "layers c = [l0, l1]" and "is_structural l0" and "is_structural l1"
  shows "map ac (layers (armorcalc c)) = [ac l0 + 0.2 * ac l1, ac l1]"
proof (rule nth_equalityI)
  show "length (map ac (layers (armorcalc c))) = length [ac l0 + 0.2 * ac l1, ac l1]"
    using assms by (simp add: length_layers_armorcalc)
next
  fix i assume "i < length (map ac (layers (armorcalc c)))"
  then have "i < 2" using assms by (simp add: length_layers_armorcalc)
  then have "i = 0 \<or> i = 1" by arith
  then show "map ac (layers (armorcalc c)) ! i = [ac l0 + 0.2 * ac l1, ac l1] ! i"
    using assms armorcalc_layers_nth [of i c]
    by (auto simp: length_layers_armorcalc)
qed



text \<open>In a two-layer structural chunk the second run adds the boost a second time.\<close>

lemma armorcalc_twice_two_layers:
  assumes "layers c = [l0, l1]" and "is_structural l0" and "is_structural l1"
  shows "map ac (layers (armorcalc (armorcalc c))) = [ac l0 + 0.4 * ac l1, ac l1]"
proof -
  have 1: "layers (armorcalc c) = [l0\<lparr>ac := ac l0 + 0.2 * ac l1\<rparr>, l1]"
    using assms by (intro nth_equalityI) (auto simp: length_layers_armorcalc armorcalc_layers_nth less_Suc_eq)
  have "layers (armorcalc (armorcalc c)) = [l0\<lparr>ac := ac l0 + 0.4 * ac l1\<rparr>, l1]"
    using assms by (intro nth_equalityI)
      (auto simp: length_layers_armorcalc armorcalc_layers_nth [of _ "armorcalc c"] 1 less_Suc_eq)
  then show ?thesis by simp
qed

section \<open>Properties of kdcalc\<close>

subsection \<open>What the loops compute\<close>

lemma py_round_of_int: "py_round (of_int n) = n"
  by (simp add: py_round_def)

lemma py_round1_tenths: "py_round1 (real k / 10 + 0.1) = real (Suc k) / 10"
proof -
  have "(real k / 10 + 0.1) * 10 = of_int (int (Suc k))"
    by simp
  then have "py_round ((real k / 10 + 0.1) * 10) = int (Suc k)"
    by (simp only: py_round_of_int)
  then show ?thesis
    unfolding py_round1_def by simp
qed

lemma hp_loop_foldl:
  "shell_ap \<noteq> 0 \<Longrightarrow>
   hp_loop ls shell_ap shell_angle Ls s =
     Inr (foldl (\<lambda>s L. py_round (of_int s +
            hp (ls ! L) * (ac (ls ! L) / shell_ap) * (1 - cos shell_angle))) s Ls)"
  by (induction Ls arbitrary: s) (simp_all add: Let_def)

lemma map_nth_butlast: "map ((!) ls) [0..<length ls - 1] = butlast ls"
  by (rule nth_equalityI) (simp_all add: nth_butlast)

lemma hp_loop_spec:
  assumes "shell_ap \<noteq> 0"
  shows "hp_loop ls shell_ap shell_angle [0..<length ls - 1] 0 =
           Inr (spec_effective_hp ls shell_ap shell_angle)"
proof -
  have "foldl (\<lambda>s L. py_round (of_int s +
            hp (ls ! L) * (ac (ls ! L) / shell_ap) * (1 - cos shell_angle))) 0 [0..<length ls - 1]
      = foldl (\<lambda>s l. py_round (of_int s +
            hp l * (ac l / shell_ap) * (1 - cos shell_angle))) 0 (map ((!) ls) [0..<length ls - 1])"
    by (simp add: foldl_map)
  also have "map ((!) ls) [0..<length ls - 1] = butlast ls"
    by (rule map_nth_butlast)
  finally show ?thesis
    unfolding spec_effective_hp_def hp_loop_foldl [OF assms] by (rule arg_cong)
qed

lemma tenth_le_iff: "1 \<le> k \<Longrightarrow> real k / 10 \<le> m \<longleftrightarrow> k \<le> nat \<lfloor>m * 10\<rfloor>"
proof -
  assume k: "1 \<le> k"
  have "real k / 10 \<le> m \<longleftrightarrow> of_int (int k) \<le> m * 10" by auto
  also have "\<dots> \<longleftrightarrow> int k \<le> \<lfloor>m * 10\<rfloor>" by (simp only: le_floor_iff)
  also have "\<dots> \<longleftrightarrow> k \<le> nat \<lfloor>m * 10\<rfloor>" using k by arith
  finally show ?thesis .
qed

lemma kd_loop_tenths:
  "1 \<le> k \<Longrightarrow>
   kd_loop ls a m (real k / 10) kd =
     Inr (foldl (\<lambda>kd j. AList.update (real j / 10) (spec_effective_hp ls (real j / 10) a) kd)
            kd [k..<Suc (nat \<lfloor>m * 10\<rfloor>)])"
proof (induction "Suc (nat \<lfloor>m * 10\<rfloor>) - k" arbitrary: k kd)
  case 0
  then have "\<not> real k / 10 \<le> m" using tenth_le_iff [of k m] by simp
  moreover have "[k..<Suc (nat \<lfloor>m * 10\<rfloor>)] = []" using 0 by simp
  ultimately show ?case by (subst kd_loop.simps) simp
next
  case (Suc d)
  then have le: "real k / 10 \<le> m" using tenth_le_iff [of k m] by arith
  have nz: "real k / 10 \<noteq> 0" using Suc.prems by simp
  have "k < Suc (nat \<lfloor>m * 10\<rfloor>)" using Suc.hyps(2) by arith
  then have up: "[k..<Suc (nat \<lfloor>m * 10\<rfloor>)] = k # [Suc k..<Suc (nat \<lfloor>m * 10\<rfloor>)]"
    by (rule upt_conv_Cons)
  have "d = Suc (nat \<lfloor>m * 10\<rfloor>) - Suc k" using Suc.hyps(2) by simp
  from Suc.hyps(1) [OF this] have IH: "kd_loop ls a m (real (Suc k) / 10) kd' =
     Inr (foldl (\<lambda>kd j. AList.update (real j / 10) (spec_effective_hp ls (real j / 10) a) kd)
            kd' [Suc k..<Suc (nat \<lfloor>m * 10\<rfloor>)])" for kd' by simp
  show ?case
    apply (subst kd_loop.simps)
    apply (simp only: le if_True hp_loop_spec [OF nz] sum.case py_round1_tenths IH up foldl_Cons)
    done
qed

lemma kd_writes_Nil: "kd_writes ls a kd [] = kd"
  by (simp add: kd_writes_def)

lemma kd_writes_Cons:
  "kd_writes ls a kd (j # js) =
     kd_writes ls a (AList.update (real j / 10) (spec_effective_hp ls (real j / 10) a) kd) js"
  by (simp add: kd_writes_def)

lemma py_max_Max: "xs \<noteq> [] \<Longrightarrow> py_max xs = Inr (Max (set xs))"
proof (cases xs)
  case Nil
  assume "xs \<noteq> []"
  with Nil show ?thesis by simp
next
  case (Cons x ys)
  have "foldl max x ys = fold max ys x"
    by (simp add: foldl_conv_fold max.commute)
  also have "\<dots> = Max (set (x # ys))"
    by (rule Max.set_eq_fold [symmetric])
  finally show ?thesis using Cons by simp
qed

lemma layer_ac_butlast: "map (\<lambda>L. ac (ls ! L)) [0..<length ls - 1] = map ac (butlast ls)"
proof -
  have "map (\<lambda>L. ac (ls ! L)) [0..<length ls - 1] = map ac (map ((!) ls) [0..<length ls - 1])"
    by simp
  also have "\<dots> = map ac (butlast ls)"
    by (simp only: map_nth_butlast)
  finally show ?thesis .
qed

lemma butlast_Nil_iff: "butlast ls = [] \<longleftrightarrow> length ls \<le> 1"
  by (cases ls) (simp_all split: if_splits)

lemma kdcalc_short:
  assumes "length (layers c) \<le> 1"
  shows "kdcalc c shell_angle = Inl ValueError"
proof -
  have "map (\<lambda>L. ac (layers c ! L)) [0..<length (layers c) - 1] = []"
    using assms by simp
  then show ?thesis
    unfolding kdcalc_def Let_def by (simp only: py_max.simps sum.case)
qed

lemma kd_loop_start:
  "kd_loop ls a m 0.1 kd = Inr (kd_writes ls a kd [1..<Suc (nat \<lfloor>m * 10\<rfloor>)])"
  using kd_loop_tenths [of 1 ls a m kd] by (simp add: kd_writes_def)

lemma kdcalc_long:
  assumes "2 \<le> length (layers c)"
  shows "kdcalc c shell_angle =
     Inr (c\<lparr>KD_required :=
            kd_writes (layers c) shell_angle (KD_required c)
              [1..<Suc (nat \<lfloor>spec_max_ap (layers c) * 10\<rfloor>)]\<rparr>)"
proof -
  have "butlast (layers c) \<noteq> []"
    using assms by (simp add: butlast_Nil_iff)
  then have "py_max (map ac (butlast (layers c))) = Inr (spec_max_ap (layers c))"
    by (simp add: py_max_Max spec_max_ap_def)
  then show ?thesis
    unfolding kdcalc_def Let_def layer_ac_butlast by (simp only: sum.case kd_loop_start)
qed

lemma map_of_kd_writes:
  "map_of (kd_writes ls a kd js) x =
     (if x \<in> (\<lambda>j. real j / 10) ` set js then Some (spec_effective_hp ls x a)
      else map_of kd x)"
proof (induction js arbitrary: kd)
  case Nil
  show ?case by (simp add: kd_writes_Nil)
next
  case (Cons j js)
  let ?kd = "AList.update (real j / 10) (spec_effective_hp ls (real j / 10) a) kd"
  have step: "map_of (kd_writes ls a kd (j # js)) x =
      (if x \<in> (\<lambda>j. real j / 10) ` set js then Some (spec_effective_hp ls x a)
       else map_of ?kd x)"
    unfolding kd_writes_Cons by (rule Cons.IH)
  show ?case
  proof (cases "x = real j / 10")
    case True
    show ?thesis
      unfolding step unfolding True by (simp add: update_conv')
  next
    case False
    then have "x \<in> (\<lambda>j. real j / 10) ` set (j # js) \<longleftrightarrow> x \<in> (\<lambda>j. real j / 10) ` set js"
      by auto
    moreover have "map_of ?kd x = map_of kd x"
      using False by (simp add: update_conv')
    ultimately show ?thesis
      unfolding step by (simp only:)
  qed
qed

lemma keys_kd_writes:
  assumes "distinct js"
  shows "map fst (kd_writes ls a kd js) =
           map fst kd @ filter (\<lambda>x. x \<notin> fst ` set kd) (map (\<lambda>j. real j / 10) js)"
  using assms
proof (induction js arbitrary: kd)
  case Nil
  show ?case by (simp add: kd_writes_Nil)
next
  case (Cons j js)
  have notin: "real j / 10 \<notin> set (map (\<lambda>j. real j / 10) js)"
    using Cons.prems by auto
  have dist: "distinct js" using Cons.prems by simp
  show ?case
  proof (cases "real j / 10 \<in> fst ` set kd")
    case True
    then show ?thesis
      unfolding kd_writes_Cons Cons.IH [OF dist]
      by (simp add: update_keys dom_update insert_absorb)
  next
    case False
    have "filter (\<lambda>x. x \<notin> insert (real j / 10) (fst ` set kd)) (map (\<lambda>j. real j / 10) js)
        = filter (\<lambda>x. x \<notin> fst ` set kd) (map (\<lambda>j. real j / 10) js)"
      using notin by (intro filter_cong) auto
    with False show ?thesis
      unfolding kd_writes_Cons Cons.IH [OF dist]
      by (simp add: update_keys dom_update)
  qed
qed

lemma kd_writes_again:
  assumes "\<forall>j\<in>set js. map_of kd (real j / 10) = Some (spec_effective_hp ls (real j / 10) a)"
  shows "kd_writes ls a kd js = kd"
  using assms
proof (induction js)
  case Nil
  show ?case by (simp add: kd_writes_Nil)
next
  case (Cons j js)
  then have "AList.update (real j / 10) (spec_effective_hp ls (real j / 10) a) kd = kd"
    by (simp add: update_triv)
  then show ?case
    unfolding kd_writes_Cons using Cons by simp
qed

lemma map_of_kd_writes_in:
  assumes "j \<in> set js"
  shows "map_of (kd_writes ls a kd js) (real j / 10) = Some (spec_effective_hp ls (real j / 10) a)"
proof -
  have "real j / 10 \<in> (\<lambda>j. real j / 10) ` set js"
    using assms by (rule imageI)
  then show ?thesis
    by (simp only: map_of_kd_writes if_True)
qed

lemma set_update_subset: "set (AList.update k v al) \<subseteq> insert (k, v) (set al)"
  by (induction al) auto

lemma set_kd_writes:
  "(x, v) \<in> set (kd_writes ls a kd js) \<Longrightarrow>
   (x, v) \<in> set kd \<or> (x \<in> (\<lambda>j. real j / 10) ` set js \<and> v = spec_effective_hp ls x a)"
proof (induction js arbitrary: kd)
  case Nil
  then show ?case by (simp add: kd_writes_Nil)
next
  case (Cons j js)
  from Cons.IH [OF Cons.prems [unfolded kd_writes_Cons]]
  consider "(x, v) \<in> set (AList.update (real j / 10) (spec_effective_hp ls (real j / 10) a) kd)"
    | "x \<in> (\<lambda>j. real j / 10) ` set js" "v = spec_effective_hp ls x a"
    by blast
  then show ?case
  proof cases
    case 1
    then have "(x, v) = (real j / 10, spec_effective_hp ls (real j / 10) a) \<or> (x, v) \<in> set kd"
      using set_update_subset by fastforce
    then show ?thesis
    proof
      assume "(x, v) = (real j / 10, spec_effective_hp ls (real j / 10) a)"
      then have x: "x = real j / 10" and v: "v = spec_effective_hp ls (real j / 10) a"
        by (simp_all only: prod.inject)
      have "x \<in> (\<lambda>j. real j / 10) ` set (j # js)"
        unfolding x by (rule imageI) simp
      moreover have "v = spec_effective_hp ls x a"
        unfolding x by (rule v)
      ultimately show ?thesis by blast
    next
      assume "(x, v) \<in> set kd"
      then show ?thesis by blast
    qed
  next
    case 2
    then show ?thesis by auto
  qed
qed

lemma kdcalc_Inr_long: "kdcalc c shell_angle = Inr c' \<Longrightarrow> 2 \<le> length (layers c)"
  using kdcalc_short [of c shell_angle] by (cases "2 \<le> length (layers c)") simp_all

lemma kdcalc_Inr_update:
  assumes "kdcalc c shell_angle = Inr c'"
  obtains kd where "c' = c\<lparr>KD_required := kd\<rparr>"
  using assms unfolding kdcalc_def Let_def by (auto split: sum.splits)

lemma kdcalc_Inr_writes:
  assumes "kdcalc c shell_angle = Inr c'"
  shows "KD_required c' = kd_writes (layers c) shell_angle (KD_required c)
           [1..<Suc (nat \<lfloor>spec_max_ap (layers c) * 10\<rfloor>)]"
proof -
  have "2 \<le> length (layers c)"
    using assms by (rule kdcalc_Inr_long)
  from kdcalc_long [OF this, of shell_angle] assms
  have "c' = c\<lparr>KD_required := kd_writes (layers c) shell_angle (KD_required c)
           [1..<Suc (nat \<lfloor>spec_max_ap (layers c) * 10\<rfloor>)]\<rparr>"
    by simp
  then show ?thesis by simp
qed

lemma step_in_range:
  assumes "1 \<le> j" and "real j / 10 \<le> m"
  shows "j \<in> set [1..<Suc (nat \<lfloor>m * 10\<rfloor>)]"
proof -
  have "j \<le> nat \<lfloor>m * 10\<rfloor>"
    using assms tenth_le_iff [of j m] by blast
  then show ?thesis
    using assms(1) by auto
qed

lemma spec_effective_hp_angle_zero: "spec_effective_hp ls shell_ap 0 = 0"
proof -
  have "foldl (\<lambda>s l. py_round (of_int s + hp l * (ac l / shell_ap) * (1 - cos 0))) 0 xs = 0"
    for xs :: "layer list"
    by (induction xs) (simp_all add: py_round_of_int)
  then show ?thesis
    by (simp only: spec_effective_hp_def)
qed

lemma spec_effective_hp_periodic:
  "spec_effective_hp ls shell_ap (shell_angle + 2 * pi) = spec_effective_hp ls shell_ap shell_angle"
  by (simp add: spec_effective_hp_def)

lemma ap_steps_sorted: "sorted_wrt (<) (map (\<lambda>j. real j / 10) [1..<Suc n])"
  by (simp add: sorted_wrt_map sorted_wrt_upt del: upt_Suc) 

lemma ap_steps_set:
  "set (map (\<lambda>j. real j / 10) [1..<Suc (nat \<lfloor>m * 10\<rfloor>)]) = {x. \<exists>j\<ge>1. x = real j / 10 \<and> x \<le> m}"
proof (intro set_eqI iffI)
  fix x assume "x \<in> set (map (\<lambda>j. real j / 10) [1..<Suc (nat \<lfloor>m * 10\<rfloor>)])"
  then obtain j where j: "x = real j / 10" "1 \<le> j" "j \<le> nat \<lfloor>m * 10\<rfloor>"
    by auto
  then have "x \<le> m" using tenth_le_iff [of j m] by simp
  with j show "x \<in> {x. \<exists>j\<ge>1. x = real j / 10 \<and> x \<le> m}" by blast
next
  fix x assume "x \<in> {x. \<exists>j\<ge>1. x = real j / 10 \<and> x \<le> m}"
  then obtain j where j: "1 \<le> j" "x = real j / 10" "real j / 10 \<le> m" by blast
  have "j \<in> set [1..<Suc (nat \<lfloor>m * 10\<rfloor>)]"
    using j(1,3) by (rule step_in_range)
  then show "x \<in> set (map (\<lambda>j. real j / 10) [1..<Suc (nat \<lfloor>m * 10\<rfloor>)])"
    unfolding j(2) by (simp only: set_map) (rule imageI)
qed




subsection \<open>Runs on the example chunks\<close>

lemma spec_max_ap_air_metal: "spec_max_ap (layers air_metal) = 0"
  by (simp add: spec_max_ap_def layers_air_metal)

lemma kdcalc_air_metal: "kdcalc air_metal shell_angle = Inr air_metal"
proof -
  have "kdcalc air_metal shell_angle =
      Inr (air_metal\<lparr>KD_required :=
            kd_writes (layers air_metal) shell_angle (KD_required air_metal)
              [1..<Suc (nat \<lfloor>spec_max_ap (layers air_metal) * 10\<rfloor>)]\<rparr>)"
    by (rule kdcalc_long) (simp add: layers_air_metal)
  then show ?thesis
    by (simp only: spec_max_ap_air_metal) (simp add: kd_writes_Nil)
qed

lemma spec_max_ap_quarter_air: "spec_max_ap (layers quarter_air) = 1 / 4"
  by (simp add: spec_max_ap_def layers_quarter_air)

lemma kdcalc_quarter_air:
  "kdcalc quarter_air 0 = Inr (quarter_air\<lparr>KD_required := [(0.1, 0), (0.2, 0)]\<rparr>)"
proof -
  have "kdcalc quarter_air 0 =
      Inr (quarter_air\<lparr>KD_required :=
            kd_writes (layers quarter_air) 0 (KD_required quarter_air)
              [1..<Suc (nat \<lfloor>spec_max_ap (layers quarter_air) * 10\<rfloor>)]\<rparr>)"
    by (rule kdcalc_long) (simp add: layers_quarter_air)
  also have "nat \<lfloor>spec_max_ap (layers quarter_air) * 10\<rfloor> = 2"
    by (simp add: spec_max_ap_quarter_air)
  finally show ?thesis
    by (simp add: upt_conv_Cons kd_writes_Cons kd_writes_Nil spec_effective_hp_angle_zero
        KD_required_quarter_air)
qed

lemma spec_max_ap_ones_air: "spec_max_ap (layers ones_air) = 1"
  by (simp add: spec_max_ap_def layers_ones_air)

lemma kdcalc_ones_air:
  "kdcalc ones_air pi =
     Inr (ones_air\<lparr>KD_required :=
       [(0.1, 40), (0.2, 20), (0.3, 14), (0.4, 10), (0.5, 8),
        (0.6, 6), (0.7, 6), (0.8, 4), (0.9, 4), (1, 4)]\<rparr>)"
proof -
  have "kdcalc ones_air pi =
      Inr (ones_air\<lparr>KD_required :=
            kd_writes (layers ones_air) pi (KD_required ones_air)
              [1..<Suc (nat \<lfloor>spec_max_ap (layers ones_air) * 10\<rfloor>)]\<rparr>)"
    by (rule kdcalc_long) (simp add: layers_ones_air)
  also have "nat \<lfloor>spec_max_ap (layers ones_air) * 10\<rfloor> = 10"
    by (simp add: spec_max_ap_ones_air)
  finally show ?thesis
    by (simp add: upt_conv_Cons kd_writes_Cons kd_writes_Nil KD_required_ones_air
        spec_effective_hp_def layers_ones_air py_round_def)
qed

subsection \<open>The claims about kdcalc\<close>

text \<open>
  Claim C2, as amended. When \<open>kdcalc\<close> completes, \<open>max_ap\<close> is the maximum \<open>ac\<close> among
  all layers except the last, and the keys the run adds to \<open>KD_required\<close> are the AP
  values \<open>0.1, 0.2, ..., n / 10\<close> in ascending order, where \<open>n\<close> is the integer part of
  \<open>10 * max_ap\<close>: the multiples of \<open>0.1\<close> from \<open>0.1\<close> up to the last one that is at most
  \<open>max_ap\<close>, and none when \<open>max_ap < 0.1\<close>. A key already in the dictionary keeps its
  place. With an empty dictionary before the run the keys are strictly ascending and are
  exactly these values.
\<close>

theorem kdcalc_keys:
  assumes "kdcalc c shell_angle = Inr c'"
  shows "py_max (map (\<lambda>L. ac (layers c ! L)) [0..<length (layers c) - 1]) =
           Inr (spec_max_ap (layers c)) \<and>
         map fst (KD_required c') =
           map fst (KD_required c) @
           filter (\<lambda>x. x \<notin> fst ` set (KD_required c))
             (map (\<lambda>j. real j / 10) [1..<Suc (nat \<lfloor>spec_max_ap (layers c) * 10\<rfloor>)]) \<and>
         (KD_required c = [] \<longrightarrow>
            sorted_wrt (<) (map fst (KD_required c')) \<and>
            set (map fst (KD_required c')) =
              {x. \<exists>j\<ge>1. x = real j / 10 \<and> x \<le> spec_max_ap (layers c)})"
proof -
  let ?steps = "map (\<lambda>j. real j / 10) [1..<Suc (nat \<lfloor>spec_max_ap (layers c) * 10\<rfloor>)]"
  have "butlast (layers c) \<noteq> []"
    using kdcalc_Inr_long [OF assms] by (simp add: butlast_Nil_iff)
  then have mx: "py_max (map (\<lambda>L. ac (layers c ! L)) [0..<length (layers c) - 1]) =
      Inr (spec_max_ap (layers c))"
    unfolding layer_ac_butlast by (simp add: py_max_Max spec_max_ap_def)
  have keys: "map fst (KD_required c') =
      map fst (KD_required c) @ filter (\<lambda>x. x \<notin> fst ` set (KD_required c)) ?steps"
    unfolding kdcalc_Inr_writes [OF assms] by (rule keys_kd_writes) simp
  have "sorted_wrt (<) (map fst (KD_required c')) \<and>
      set (map fst (KD_required c')) = {x. \<exists>j\<ge>1. x = real j / 10 \<and> x \<le> spec_max_ap (layers c)}"
    if "KD_required c = []"
  proof -
    have "map fst (KD_required c') = ?steps"
      unfolding keys that by simp
    then show ?thesis
      by (simp only: ap_steps_sorted ap_steps_set)
  qed
  with mx keys show ?thesis by blast
qed

theorem kdcalc_keys_witness:
  "kdcalc ones_air pi = Inr (ones_air\<lparr>KD_required :=
        [(0.1, 40), (0.2, 20), (0.3, 14), (0.4, 10), (0.5, 8),
         (0.6, 6), (0.7, 6), (0.8, 4), (0.9, 4), (1, 4)]\<rparr>) \<and>
   KD_required ones_air = [] \<and>
   spec_max_ap (layers ones_air) = 1 \<and>
   py_max (map (\<lambda>L. ac (layers ones_air ! L)) [0..<length (layers ones_air) - 1]) =
     Inr (spec_max_ap (layers ones_air)) \<and>
   map fst (KD_required (ones_air\<lparr>KD_required :=
        [(0.1, 40), (0.2, 20), (0.3, 14), (0.4, 10), (0.5, 8),
         (0.6, 6), (0.7, 6), (0.8, 4), (0.9, 4), (1, 4)]\<rparr>)) = [0.1, 0.2, 0.3, 0.4, 0.5, 0.6, 0.7, 0.8, 0.9, 1] \<and>
   map fst (KD_required (ones_air\<lparr>KD_required :=
        [(0.1, 40), (0.2, 20), (0.3, 14), (0.4, 10), (0.5, 8),
         (0.6, 6), (0.7, 6), (0.8, 4), (0.9, 4), (1, 4)]\<rparr>)) =
     map (\<lambda>j. real j / 10) [1..<Suc (nat \<lfloor>spec_max_ap (layers ones_air) * 10\<rfloor>)] \<and>
   sorted_wrt (<) (map fst (KD_required (ones_air\<lparr>KD_required :=
        [(0.1, 40), (0.2, 20), (0.3, 14), (0.4, 10), (0.5, 8),
         (0.6, 6), (0.7, 6), (0.8, 4), (0.9, 4), (1, 4)]\<rparr>))) \<and>
   set (map fst (KD_required (ones_air\<lparr>KD_required :=
        [(0.1, 40), (0.2, 20), (0.3, 14), (0.4, 10), (0.5, 8),
         (0.6, 6), (0.7, 6), (0.8, 4), (0.9, 4), (1, 4)]\<rparr>))) =
     {x. \<exists>j\<ge>1. x = real j / 10 \<and> x \<le> spec_max_ap (layers ones_air)}"
proof -
  let ?c' = "(ones_air\<lparr>KD_required :=
        [(0.1, 40), (0.2, 20), (0.3, 14), (0.4, 10), (0.5, 8),
         (0.6, 6), (0.7, 6), (0.8, 4), (0.9, 4), (1, 4)]\<rparr>)"
  note keys = kdcalc_keys [OF kdcalc_ones_air]
  have e: "KD_required ones_air = []"
    by (rule KD_required_ones_air)
  have fresh: "map fst ([] :: (real \<times> int) list) @
      filter (\<lambda>x. x \<notin> fst ` set ([] :: (real \<times> int) list)) xs = xs" for xs
    by simp
  from keys have 1: "py_max (map (\<lambda>L. ac (layers ones_air ! L)) [0..<length (layers ones_air) - 1]) =
      Inr (spec_max_ap (layers ones_air))"
    by (rule conjunct1)
  from keys have 2: "map fst (KD_required ?c') =
      map (\<lambda>j. real j / 10) [1..<Suc (nat \<lfloor>spec_max_ap (layers ones_air) * 10\<rfloor>)]"
    unfolding e fresh by blast
  from keys e have 3: "sorted_wrt (<) (map fst (KD_required ?c'))"
    and 4: "set (map fst (KD_required ?c')) =
      {x. \<exists>j\<ge>1. x = real j / 10 \<and> x \<le> spec_max_ap (layers ones_air)}"
    by blast+
  have 5: "map fst (KD_required ?c') = [0.1, 0.2, 0.3, 0.4, 0.5, 0.6, 0.7, 0.8, 0.9, 1]"
    by simp
  show ?thesis
    by (intro conjI kdcalc_ones_air e spec_max_ap_ones_air 1 2 3 4 5)
qed

text \<open>
  The claim as written lets the keys end at the first value that is at least \<open>max_ap\<close>.
  With AIR in front of METAL \<open>max_ap\<close> is \<open>0\<close> and the run adds no key at all, where the
  claim has the key \<open>0.1\<close>; with \<open>max_ap = 0.25\<close> the last key is \<open>0.2\<close>, below \<open>max_ap\<close>,
  where the claim has \<open>0.3\<close>.
\<close>

theorem kdcalc_keys_counterexample:
  "spec_max_ap (layers air_metal) = 0 \<and> KD_required air_metal = [] \<and>
   kdcalc air_metal 90 = Inr air_metal \<and>
   map fst (KD_required air_metal) = [] \<and>
   spec_max_ap (layers quarter_air) = 0.25 \<and> KD_required quarter_air = [] \<and>
   kdcalc quarter_air 0 = Inr (quarter_air\<lparr>KD_required := [(0.1, 0), (0.2, 0)]\<rparr>) \<and>
   map fst (KD_required (quarter_air\<lparr>KD_required := [(0.1, 0), (0.2, 0)]\<rparr>)) = [0.1, 0.2] \<and>
   last [0.1, 0.2] < spec_max_ap (layers quarter_air)"
  by (simp add: spec_max_ap_air_metal KD_required_air_metal kdcalc_air_metal
      spec_max_ap_quarter_air KD_required_quarter_air kdcalc_quarter_air)

text \<open>
  Claim C3. The angle enters \<open>kdcalc\<close> only as the factor \<open>1 - cos shell_angle\<close>, the
  cosine taken of the number as it was passed in (\<^const>\<open>cos\<close> is the cosine of an angle in
  radians): one round of the inner loop adds \<open>hp * (ac / shell_ap) * (1 - cos shell_angle)\<close>
  to the running sum and rounds; every value a completed run stores is made of such
  rounds; and the result has period \<open>2 * pi\<close> in the angle, not \<open>360\<close>.
\<close>

theorem kdcalc_angle_in_radians:
  "(shell_ap \<noteq> 0 \<longrightarrow>
      hp_loop ls shell_ap shell_angle [L] s =
        Inr (py_round (of_int s + hp (ls ! L) * (ac (ls ! L) / shell_ap) * (1 - cos shell_angle)))) \<and>
   (kdcalc c shell_angle = Inr c' \<and> 1 \<le> j \<and> real j / 10 \<le> spec_max_ap (layers c) \<longrightarrow>
      map_of (KD_required c') (real j / 10) =
        Some (foldl (\<lambda>s l. py_round (of_int s +
                       hp l * (ac l / (real j / 10)) * (1 - cos shell_angle)))
                0 (butlast (layers c)))) \<and>
   kdcalc c (shell_angle + 2 * pi) = kdcalc c shell_angle"
proof (intro conjI impI)
  assume "shell_ap \<noteq> 0"
  then show "hp_loop ls shell_ap shell_angle [L] s =
      Inr (py_round (of_int s + hp (ls ! L) * (ac (ls ! L) / shell_ap) * (1 - cos shell_angle)))"
    by (simp add: Let_def)
next
  assume a: "kdcalc c shell_angle = Inr c' \<and> 1 \<le> j \<and> real j / 10 \<le> spec_max_ap (layers c)"
  then have run: "kdcalc c shell_angle = Inr c'"
    and j: "1 \<le> j" "real j / 10 \<le> spec_max_ap (layers c)"
    by blast+
  have "j \<in> set [1..<Suc (nat \<lfloor>spec_max_ap (layers c) * 10\<rfloor>)]"
    using j by (rule step_in_range)
  then have "map_of (KD_required c') (real j / 10) =
      Some (spec_effective_hp (layers c) (real j / 10) shell_angle)"
    unfolding kdcalc_Inr_writes [OF run] by (intro map_of_kd_writes_in)
  then show "map_of (KD_required c') (real j / 10) =
      Some (foldl (\<lambda>s l. py_round (of_int s +
                     hp l * (ac l / (real j / 10)) * (1 - cos shell_angle)))
              0 (butlast (layers c)))"
    by (simp only: spec_effective_hp_def)
next
  show "kdcalc c (shell_angle + 2 * pi) = kdcalc c shell_angle"
  proof (cases "2 \<le> length (layers c)")
    case True
    then show ?thesis
      by (simp only: kdcalc_long kd_writes_def spec_effective_hp_periodic)
  next
    case False
    then have "length (layers c) \<le> 1" by simp
    then show ?thesis
      by (simp only: kdcalc_short)
  qed
qed

text \<open>
  METAL in front of AIR at the angle \<open>pi\<close>, where the factor is \<open>2\<close>: the value stored for
  \<open>shell_ap = 0.1\<close> is \<open>1680 * (40 / 0.1) * 2\<close>.
\<close>

theorem kdcalc_angle_in_radians_witness:
  "hp_loop (layers metal_air) 0.1 pi [0] 0 = Inr 1344000 \<and>
   (\<exists>c'. kdcalc metal_air pi = Inr c' \<and> map_of (KD_required c') (real 1 / 10) = Some 1344000) \<and>
   kdcalc metal_air (pi + 2 * pi) = kdcalc metal_air pi"
proof -
  have len: "2 \<le> length (layers metal_air)"
    by (simp add: layers_metal_air)
  then obtain c' where c': "kdcalc metal_air pi = Inr c'"
    using kdcalc_long [of metal_air pi] by blast
  have m: "spec_max_ap (layers metal_air) = 40"
    by (simp add: spec_max_ap_def layers_metal_air)
  note t = kdcalc_angle_in_radians [of "0.1" "layers metal_air" pi 0 0 metal_air c' 1]
  have "(0.1 :: real) \<noteq> 0" by simp
  with t have "hp_loop (layers metal_air) 0.1 pi [0] 0 =
      Inr (py_round (of_int 0 + hp (layers metal_air ! 0) * (ac (layers metal_air ! 0) / 0.1) * (1 - cos pi)))"
    by blast
  then have 1: "hp_loop (layers metal_air) 0.1 pi [0] 0 = Inr 1344000"
    by (simp add: layers_metal_air py_round_def)
  have "(1::nat) \<le> 1 \<and> real 1 / 10 \<le> spec_max_ap (layers metal_air)"
    by (simp add: m)
  with t c' have "map_of (KD_required c') (real 1 / 10) =
      Some (foldl (\<lambda>s l. py_round (of_int s + hp l * (ac l / (real 1 / 10)) * (1 - cos pi)))
              0 (butlast (layers metal_air)))"
    by blast
  then have 2: "map_of (KD_required c') (real 1 / 10) = Some 1344000"
    by (simp add: layers_metal_air py_round_def)
  from t have 3: "kdcalc metal_air (pi + 2 * pi) = kdcalc metal_air pi"
    by blast
  from 1 2 3 c' show ?thesis by blast
qed

text \<open>
  Claim C4. For every AP step \<open>j / 10\<close> of a completed run, the inner loop of the source
  computes the fold of the specification, whose step is
  \<open>round(previous_rounded_sum + this_layer_contribution)\<close> over the layers except the last,
  in order: the sum is rounded after every layer. The result of the fold is the value
  stored in \<open>KD_required\<close> for that AP.
\<close>

theorem kdcalc_rounds_after_every_layer:
  assumes "kdcalc c shell_angle = Inr c'"
    and "1 \<le> j" and "real j / 10 \<le> spec_max_ap (layers c)"
  shows "hp_loop (layers c) (real j / 10) shell_angle [0..<length (layers c) - 1] 0 =
           Inr (spec_effective_hp (layers c) (real j / 10) shell_angle) \<and>
         map_of (KD_required c') (real j / 10) =
           Some (spec_effective_hp (layers c) (real j / 10) shell_angle)"
proof
  have "real j / 10 \<noteq> 0"
    using assms(2) by simp
  then show "hp_loop (layers c) (real j / 10) shell_angle [0..<length (layers c) - 1] 0 =
      Inr (spec_effective_hp (layers c) (real j / 10) shell_angle)"
    by (rule hp_loop_spec)
next
  have "j \<in> set [1..<Suc (nat \<lfloor>spec_max_ap (layers c) * 10\<rfloor>)]"
    using assms(2,3) by (rule step_in_range)
  then show "map_of (KD_required c') (real j / 10) =
      Some (spec_effective_hp (layers c) (real j / 10) shell_angle)"
    unfolding kdcalc_Inr_writes [OF assms(1)] by (rule map_of_kd_writes_in)
qed

text \<open>
  Two layers that contribute \<open>2.5\<close> each at \<open>shell_ap = 0.8\<close>: rounding after every layer
  gives \<open>round(2 + 2.5) = 4\<close>, rounding once at the end would give \<open>5\<close>.
\<close>

theorem kdcalc_rounds_after_every_layer_witness:
  "hp_loop (layers ones_air) (real 8 / 10) pi [0..<length (layers ones_air) - 1] 0 = Inr 4 \<and>
   map_of [(0.1, 40), (0.2, 20), (0.3, 14), (0.4, 10), (0.5, 8),
           (0.6, 6), (0.7, 6), (0.8, 4), (0.9, 4), (1, 4)] (real 8 / 10) = Some (4 :: int) \<and>
   spec_effective_hp (layers ones_air) (real 8 / 10) pi = 4 \<and>
   py_round (5 / 2 + 5 / 2) = 5"
proof -
  have v: "spec_effective_hp (layers ones_air) (real 8 / 10) pi = 4"
    by (simp add: spec_effective_hp_def layers_ones_air py_round_def)
  have "(1::nat) \<le> 8" and "real 8 / 10 \<le> spec_max_ap (layers ones_air)"
    by (simp_all add: spec_max_ap_ones_air)
  from kdcalc_rounds_after_every_layer [OF kdcalc_ones_air this]
  have "hp_loop (layers ones_air) (real 8 / 10) pi [0..<length (layers ones_air) - 1] 0 = Inr 4"
    and "map_of [(0.1, 40), (0.2, 20), (0.3, 14), (0.4, 10), (0.5, 8),
           (0.6, 6), (0.7, 6), (0.8, 4), (0.9, 4), (1, 4)] (real 8 / 10) = Some (4 :: int)"
    unfolding v by simp_all
  moreover have "py_round (5 / 2 + 5 / 2) = 5"
    by (simp add: py_round_def)
  ultimately show ?thesis
    using v by blast
qed

text \<open>
  Claim C7. When \<open>kdcalc\<close> completes with \<open>shell_angle = 0\<close>, the value stored for every
  AP step of the run is \<open>0\<close>, and every entry of \<open>KD_required\<close> after the run is \<open>0\<close> or
  an entry that was there before the run (so all of them are \<open>0\<close> when the dictionary was
  empty before).
\<close>

theorem kdcalc_angle_zero:
  assumes "kdcalc c 0 = Inr c'"
  shows "(1 \<le> j \<and> real j / 10 \<le> spec_max_ap (layers c) \<longrightarrow>
            map_of (KD_required c') (real j / 10) = Some 0) \<and>
         ((k, v) \<in> set (KD_required c') \<longrightarrow> v = 0 \<or> (k, v) \<in> set (KD_required c))"
proof -
  note kd = kdcalc_Inr_writes [OF assms]
  have "map_of (KD_required c') (real j / 10) = Some 0"
    if "1 \<le> j" "real j / 10 \<le> spec_max_ap (layers c)"
    unfolding kd using map_of_kd_writes_in [OF step_in_range [OF that]]
    by (simp only: spec_effective_hp_angle_zero)
  moreover have "v = 0 \<or> (k, v) \<in> set (KD_required c)" if "(k, v) \<in> set (KD_required c')"
    using set_kd_writes [OF that [unfolded kd]] by (auto simp: spec_effective_hp_angle_zero)
  ultimately show ?thesis by blast
qed

theorem kdcalc_angle_zero_witness:
  "\<exists>c'. kdcalc metal_air 0 = Inr c' \<and>
     map_of (KD_required c') (real 1 / 10) = Some 0 \<and>
     map_of (KD_required c') (real 400 / 10) = Some 0 \<and>
     (\<forall>k v. (k, v) \<in> set (KD_required c') \<longrightarrow> v = 0)"
proof -
  have "2 \<le> length (layers metal_air)"
    by (simp add: layers_metal_air)
  then obtain c' where c': "kdcalc metal_air 0 = Inr c'"
    using kdcalc_long [of metal_air 0] by blast
  have m: "spec_max_ap (layers metal_air) = 40"
    by (simp add: spec_max_ap_def layers_metal_air)
  have e: "KD_required metal_air = []"
    by (simp add: metal_air_def add_layer_def ArmorChunk_init_def)
  have "(1::nat) \<le> 1 \<and> real 1 / 10 \<le> spec_max_ap (layers metal_air)"
    and "(1::nat) \<le> 400 \<and> real 400 / 10 \<le> spec_max_ap (layers metal_air)"
    by (simp_all add: m)
  then have "map_of (KD_required c') (real 1 / 10) = Some 0"
    and "map_of (KD_required c') (real 400 / 10) = Some 0"
    using kdcalc_angle_zero [OF c', of 1] kdcalc_angle_zero [OF c', of 400] by blast+
  moreover have "\<forall>k v. (k, v) \<in> set (KD_required c') \<longrightarrow> v = 0"
    using kdcalc_angle_zero [OF c'] e by simp
  ultimately show ?thesis
    using c' by blast
qed



text \<open>
  Claim C10. \<open>kdcalc\<close> is idempotent: on a chunk with at least two layers a first run
  returns a chunk on which a second run with the same angle returns that same chunk, with
  the same keys in the same order and the same values.
\<close>

theorem kdcalc_idempotent:
  assumes "2 \<le> length (layers c)"
  shows "\<exists>c1. kdcalc c shell_angle = Inr c1 \<and> kdcalc c1 shell_angle = Inr c1"
proof -
  let ?js = "[1..<Suc (nat \<lfloor>spec_max_ap (layers c) * 10\<rfloor>)]"
  define kd1 where "kd1 = kd_writes (layers c) shell_angle (KD_required c) ?js"
  define c1 where "c1 = c\<lparr>KD_required := kd1\<rparr>"
  have first: "kdcalc c shell_angle = Inr c1"
    unfolding c1_def kd1_def using assms by (rule kdcalc_long)
  have l1: "layers c1 = layers c" and k1: "KD_required c1 = kd1"
    by (simp_all add: c1_def)
  have "\<forall>j\<in>set ?js. map_of kd1 (real j / 10) =
          Some (spec_effective_hp (layers c) (real j / 10) shell_angle)"
    unfolding kd1_def by (intro ballI map_of_kd_writes_in)
  then have again: "kd_writes (layers c) shell_angle kd1 ?js = kd1"
    by (rule kd_writes_again)
  have "kdcalc c1 shell_angle = Inr (c1\<lparr>KD_required := kd1\<rparr>)"
    using kdcalc_long [of c1 shell_angle] assms by (simp only: l1 k1 again)
  then have "kdcalc c1 shell_angle = Inr c1"
    by (simp add: c1_def)
  with first show ?thesis by blast
qed

theorem kdcalc_idempotent_witness:
  "\<exists>c1. kdcalc metal_air 90 = Inr c1 \<and> kdcalc c1 90 = Inr c1"
proof -
  have "2 \<le> length (layers metal_air)"
    by (simp add: layers_metal_air)
  then show ?thesis
    by (rule kdcalc_idempotent)
qed

section \<open>Short chunks and the frame of both passes\<close>

text \<open>
  Claim C6, as amended. On a chunk with no layer or one layer the loops over
  \<open>range(0, len(self.layers) - 1)\<close> have no index to visit; \<open>armorcalc\<close> returns the chunk
  unchanged; \<open>kdcalc\<close> does not complete: \<open>max\<close> of the empty list \<open>layer_ac\<close> raises
  \<open>ValueError\<close>, before anything is summed or written.
\<close>

theorem short_chunk_passes:
  assumes "length (layers c) \<le> 1"
  shows "[0..<length (layers c) - 1] = [] \<and> armorcalc c = c \<and>
         kdcalc c shell_angle = Inl ValueError"
  using assms by (simp add: armorcalc_short kdcalc_short)

theorem short_chunk_passes_witness:
  "[0..<length (layers metal_only) - 1] = [] \<and> armorcalc metal_only = metal_only \<and>
   kdcalc metal_only 90 = Inl ValueError"
proof -
  have "length (layers metal_only) \<le> 1"
    by (simp add: layers_metal_only)
  then show ?thesis
    by (rule short_chunk_passes)
qed

text \<open>
  The claim as written has \<open>kdcalc\<close> complete without error on such chunks; on the empty
  chunk and on a single METAL layer it raises.
\<close>

theorem kdcalc_short_chunk_counterexample:
  "kdcalc ArmorChunk_init 0 = Inl ValueError \<and> kdcalc metal_only 0 = Inl ValueError"
  by (simp add: kdcalc_def layers_metal_only ArmorChunk_init_def)

text \<open>
  Claim C8. Frame. \<open>armorcalc\<close> leaves the \<open>hp\<close> and \<open>is_structural\<close> of every layer, the
  number and order of the layers, the whole last layer (its \<open>ac\<close> too) and \<open>KD_required\<close>
  as they were. A completed \<open>kdcalc\<close> leaves the list of layers as it was and changes
  nothing in the chunk but \<open>KD_required\<close>.
\<close>

theorem frame_armorcalc_kdcalc:
  "map hp (layers (armorcalc c)) = map hp (layers c) \<and>
   map is_structural (layers (armorcalc c)) = map is_structural (layers c) \<and>
   length (layers (armorcalc c)) = length (layers c) \<and>
   (layers c \<noteq> [] \<longrightarrow> last (layers (armorcalc c)) = last (layers c)) \<and>
   KD_required (armorcalc c) = KD_required c \<and>
   (kdcalc c shell_angle = Inr c' \<longrightarrow> layers c' = layers c \<and> c' = c\<lparr>KD_required := KD_required c'\<rparr>)"
proof -
  have "map hp (layers (armorcalc c)) = map hp (layers c)"
    by (rule nth_equalityI) (simp_all add: length_layers_armorcalc armorcalc_hp)
  moreover have "map is_structural (layers (armorcalc c)) = map is_structural (layers c)"
    by (rule nth_equalityI) (simp_all add: length_layers_armorcalc armorcalc_is_structural)
  moreover have "KD_required (armorcalc c) = KD_required c"
    by (simp add: armorcalc_def)
  moreover have "layers c' = layers c \<and> c' = c\<lparr>KD_required := KD_required c'\<rparr>"
    if "kdcalc c shell_angle = Inr c'"
  proof -
    from that obtain kd where "c' = c\<lparr>KD_required := kd\<rparr>"
      by (rule kdcalc_Inr_update)
    then show ?thesis by simp
  qed
  ultimately show ?thesis
    by (simp add: length_layers_armorcalc armorcalc_last)
qed

theorem frame_armorcalc_kdcalc_witness:
  "map hp (layers (armorcalc metal_alloy_wood)) = [1680, 1440, 864] \<and>
   map is_structural (layers (armorcalc metal_alloy_wood)) = [True, True, True] \<and>
   length (layers (armorcalc metal_alloy_wood)) = 3 \<and>
   last (layers (armorcalc metal_alloy_wood)) = \<lparr>hp = 864, ac = 8, is_structural = True\<rparr> \<and>
   KD_required (armorcalc metal_alloy_wood) = [] \<and>
   (\<exists>c'. kdcalc metal_air 90 = Inr c' \<and>
      layers c' =
        [\<lparr>hp = 1680, ac = 40, is_structural = True\<rparr>,
         \<lparr>hp = 0, ac = 0, is_structural = False\<rparr>])"
proof -
  have ne: "layers metal_alloy_wood \<noteq> []"
    by (simp add: layers_metal_alloy_wood)
  have "2 \<le> length (layers metal_air)"
    by (simp add: layers_metal_air)
  then obtain c' where kd: "kdcalc metal_air 90 = Inr c'"
    using kdcalc_long [of metal_air 90] by blast
  have "layers c' = layers metal_air"
    using frame_armorcalc_kdcalc [of metal_air 90 c'] kd by blast
  then have "\<exists>c'. kdcalc metal_air 90 = Inr c' \<and> layers c' = layers metal_air"
    using kd by blast
  moreover have "KD_required metal_alloy_wood = []"
    by (simp add: metal_alloy_wood_def add_layer_def ArmorChunk_init_def)
  ultimately show ?thesis
    using frame_armorcalc_kdcalc [of metal_alloy_wood 90 metal_alloy_wood] ne
    by (simp add: layers_metal_alloy_wood layers_metal_air)
qed

end
